theory Spec2Isabelle
  imports Main
begin

section \<open>Values held by a table\<close>

text \<open>
  The pipeline works on pandas tables. A cell of a table is a missing value
  (\<open>NaN\<close>, \<open>None\<close> or \<open>NaT\<close>: everything \<open>isnull\<close> accepts), a whole number, a
  text, or a timestamp (nanoseconds since the Unix epoch, as \<open>Timestamp.value\<close>).
  Counts are whole numbers: the model computes on \<open>int\<close>, which agrees with the
  64-bit integer and floating point columns of pandas as long as every count and
  every difference stays below \<open>2 ^ 53\<close> in magnitude. Fractions occur in the
  coordinate columns only, which the Normalizer drops; they are not modelled.
  Timestamps are made by \<open>to_datetime\<close> only, so they occur in the date column
  only. A column has no type of its own: a table is modelled cell by cell.
\<close>

datatype cell = Null | IntV int | StrV string | Stamp int

text \<open>The exceptions that the modelled code can raise.\<close>

datatype error = KeyError | ValueError | TypeError

definition isnull :: "cell \<Rightarrow> bool" where
  "isnull c = (c = Null)"

text \<open>\<open>fillna(value)\<close> on one cell.\<close>

definition fillna :: "cell \<Rightarrow> cell \<Rightarrow> cell" where
  "fillna v c = (if isnull c then v else c)"

text \<open>
  Element-wise subtraction of two columns: a missing operand gives a missing
  result, a text or a timestamp operand raises \<open>TypeError\<close>.
\<close>

fun cell_sub :: "cell \<Rightarrow> cell \<Rightarrow> error + cell" where
  "cell_sub (IntV a) (IntV b) = Inr (IntV (a - b))"
| "cell_sub (IntV a) Null = Inr Null"
| "cell_sub Null (IntV b) = Inr Null"
| "cell_sub Null Null = Inr Null"
| "cell_sub _ _ = Inl TypeError"

text \<open>Element-wise \<open>!=\<close>: a missing value differs from everything, itself included.\<close>

definition cell_ne :: "cell \<Rightarrow> cell \<Rightarrow> bool" where
  "cell_ne a b = (isnull a \<or> isnull b \<or> a \<noteq> b)"

text \<open>Element-wise \<open>< 0\<close> on a column of counts: false on a missing value.\<close>

fun cell_lt0 :: "cell \<Rightarrow> error + bool" where
  "cell_lt0 (IntV a) = Inr (a < 0)"
| "cell_lt0 Null = Inr False"
| "cell_lt0 _ = Inl TypeError"

text \<open>
  Element-wise comparison of the date column with a timestamp: false on \<open>NaT\<close>,
  \<open>TypeError\<close> on a cell that is no timestamp.
\<close>

fun stamp_cmp :: "(int \<Rightarrow> int \<Rightarrow> bool) \<Rightarrow> cell \<Rightarrow> int \<Rightarrow> error + bool" where
  "stamp_cmp rel (Stamp t) x = Inr (rel t x)"
| "stamp_cmp rel Null x = Inr False"
| "stamp_cmp rel _ x = Inl TypeError"

text \<open>An element-wise operation on a column raises as soon as one element does.\<close>

fun traverse :: "('a \<Rightarrow> error + 'b) \<Rightarrow> 'a list \<Rightarrow> error + 'b list" where
  "traverse f [] = Inr []"
| "traverse f (x # xs) =
     (case f x of
        Inl e \<Rightarrow> Inl e
      | Inr y \<Rightarrow> (case traverse f xs of Inl e \<Rightarrow> Inl e | Inr ys \<Rightarrow> Inr (y # ys)))"

text \<open>Sequencing: the first exception that is raised ends the computation.\<close>

definition and_then :: "error + 'a \<Rightarrow> ('a \<Rightarrow> error + 'b) \<Rightarrow> error + 'b" where
  "and_then m f = (case m of Inl e \<Rightarrow> Inl e | Inr x \<Rightarrow> f x)"

text \<open>Decimal rendering of a count, as an f-string prints it.\<close>

definition digit :: "nat \<Rightarrow> char" where
  "digit d = char_of (48 + d)"

function str_nat :: "nat \<Rightarrow> string" where
  "str_nat n = (if n < 10 then [digit n] else str_nat (n div 10) @ [digit (n mod 10)])"
  by pat_completeness auto
termination
  by (relation "measure id") auto

declare str_nat.simps [simp del]

section \<open>Tables with labelled columns\<close>

text \<open>
  The Reshaper and the Normalizer address columns by label. A table is its list
  of column labels and its rows; a row holds one cell per column. pandas tables
  are rectangular, and the tables \<open>read_csv\<close> delivers have pairwise distinct
  labels; a label is looked up at its first position, and the properties below
  are stated for tables with distinct labels.
\<close>

record frame =
  columns :: "string list"
  rows :: "cell list list"

definition rectangular :: "frame \<Rightarrow> bool" where
  "rectangular t = list_all (\<lambda>r. length r = length (columns t)) (rows t)"

fun index_of :: "'a \<Rightarrow> 'a list \<Rightarrow> nat option" where
  "index_of x [] = None"
| "index_of x (y # ys) = (if x = y then Some 0 else map_option Suc (index_of x ys))"

definition cell_at :: "cell list \<Rightarrow> nat \<Rightarrow> cell" where
  "cell_at r i = (if i < length r then r ! i else Null)"

text \<open>The cell of row \<open>r\<close> in the column labelled \<open>c\<close>.\<close>

definition cell_of :: "string list \<Rightarrow> cell list \<Rightarrow> string \<Rightarrow> cell" where
  "cell_of cols r c = (case index_of c cols of None \<Rightarrow> Null | Some i \<Rightarrow> cell_at r i)"

section \<open>The Reshaper (transform.py, pivot\_to\_long\_format)\<close>

text \<open>
  \<open>df.melt(id_vars, var_name, value_name)\<close>: the value columns are the columns
  whose label is not an identifier; for each value column in turn, every row
  gives one output row: its identifier cells, the label of the value column, and
  its cell in that column. \<open>melt\<close> refuses a \<open>value_name\<close> that is already the
  label of a column.
\<close>

definition melted :: "frame \<Rightarrow> string list \<Rightarrow> string \<Rightarrow> string \<Rightarrow> frame" where
  "melted t id_vars var_name value_name =
     (let value_vars = filter (\<lambda>c. c \<notin> set id_vars) (columns t)
      in \<lparr>columns = id_vars @ [var_name, value_name],
          rows = concat (map (\<lambda>c. map (\<lambda>r. map (cell_of (columns t) r) id_vars
                                               @ [StrV c, cell_of (columns t) r c])
                                      (rows t))
                             value_vars)\<rparr>)"

definition melt :: "frame \<Rightarrow> string list \<Rightarrow> string \<Rightarrow> string \<Rightarrow> error + frame" where
  "melt t id_vars var_name value_name =
     (if value_name \<in> set (columns t) then Inl ValueError
      else Inr (melted t id_vars var_name value_name))"

text \<open>
  \<open>pd.to_datetime\<close> on one cell. How a text is read as a date is the library's
  business: \<open>parse\<close> is a parameter, \<open>None\<close> where the text is no date, and every
  property below holds for every \<open>parse\<close>.
\<close>

fun to_datetime :: "(string \<Rightarrow> cell option) \<Rightarrow> cell \<Rightarrow> error + cell" where
  "to_datetime parse (StrV s) = (case parse s of None \<Rightarrow> Inl ValueError | Some t \<Rightarrow> Inr t)"
| "to_datetime parse (IntV n) = Inr (Stamp n)"
| "to_datetime parse (Stamp t) = Inr (Stamp t)"
| "to_datetime parse Null = Inr Null"

text \<open>
  \<open>t[c] = f(t[c])\<close> for an element-wise \<open>f\<close>: \<open>KeyError\<close> when no column is
  labelled \<open>c\<close>, and the error of \<open>f\<close> when it raises on a cell of the column.
\<close>

definition map_column :: "string \<Rightarrow> (cell \<Rightarrow> error + cell) \<Rightarrow> frame \<Rightarrow> error + frame" where
  "map_column c f t =
     (case index_of c (columns t) of
        None \<Rightarrow> Inl KeyError
      | Some i \<Rightarrow>
          (case traverse (\<lambda>r. case f (cell_at r i) of
                                 Inl e \<Rightarrow> Inl e
                               | Inr v \<Rightarrow> Inr (r[i := v]))
                         (rows t) of
             Inl e \<Rightarrow> Inl e
           | Inr rs \<Rightarrow> Inr (t\<lparr>rows := rs\<rparr>)))"

definition pivot_to_long_format ::
  "(string \<Rightarrow> cell option) \<Rightarrow> frame \<Rightarrow> string \<Rightarrow> error + frame"
where
  "pivot_to_long_format parse t value_name =
     (let id_vars = take 4 (columns t)
      in case melt t id_vars ''date'' value_name of
           Inl e \<Rightarrow> Inl e
         | Inr df_long \<Rightarrow> map_column ''date'' (to_datetime parse) df_long)"

section \<open>The Normalizer (transform.py, clean\_data)\<close>

definition rename_label :: "string \<Rightarrow> string" where
  "rename_label c =
     (if c = ''Country/Region'' then ''country_region''
      else if c = ''Province/State'' then ''province_state''
      else if c = ''Lat'' then ''latitude''
      else if c = ''Long'' then ''longitude''
      else c)"

definition rename :: "frame \<Rightarrow> frame" where
  "rename t = t\<lparr>columns := map rename_label (columns t)\<rparr>"

text \<open>\<open>t.drop(labels, axis=1, errors='ignore')\<close>: a label that is no column is skipped.\<close>

definition drop_columns :: "string list \<Rightarrow> frame \<Rightarrow> frame" where
  "drop_columns labels t =
     \<lparr>columns = filter (\<lambda>c. c \<notin> set labels) (columns t),
      rows = map (\<lambda>r. map snd (filter (\<lambda>(c, v). c \<notin> set labels) (zip (columns t) r))) (rows t)\<rparr>"

definition clean_data :: "frame \<Rightarrow> error + frame" where
  "clean_data t =
     (case map_column ''province_state'' (\<lambda>v. Inr (fillna (StrV ''All'') v)) (rename t) of
        Inl e \<Rightarrow> Inl e
      | Inr t' \<Rightarrow> Inr (drop_columns [''latitude'', ''longitude''] t'))"

section \<open>The Merger (transform.py, merge\_datasets)\<close>

text \<open>
  \<open>merge_datasets\<close> receives the three tables that \<open>clean_data\<close> returns: each has
  the columns \<open>country_region\<close>, \<open>province_state\<close>, \<open>date\<close> and one metric column.
  A row of such a table is the key, in the order of \<open>merge_keys\<close>, and the metric.
\<close>

text \<open>
  A row of the merged table: the three key columns, the three metric columns
  and the derived column \<open>active\<close>.
\<close>

record unified_record =
  country_region :: cell
  province_state :: cell
  date :: cell
  confirmed :: cell
  deaths :: cell
  recovered :: cell
  active :: cell

type_synonym key = "cell \<times> cell \<times> cell"

type_synonym long_table = "(key \<times> cell) list"

text \<open>
  \<open>left.merge(right, on=merge_keys, how='outer')\<close>. Every left row is paired with
  each right row of the same key, or with the missing value when there is none;
  the right rows whose key no left row has follow, with the left columns
  missing. Missing key fields match each other, as pandas has it. pandas returns
  the rows sorted by key: the order of the rows is not modelled, and no property
  below depends on it. pandas refuses to merge a key column of texts with one
  of numbers; the model covers the tables whose key columns agree in kind, as
  those of one run do. \<open>na\<close> and \<open>nb\<close> are the missing values of the columns
  that the left and the right table bring.
\<close>

definition outer_merge ::
  "'a \<Rightarrow> 'b \<Rightarrow> (key \<times> 'a) list \<Rightarrow> (key \<times> 'b) list \<Rightarrow> (key \<times> 'a \<times> 'b) list"
where
  "outer_merge na nb left right =
     concat (map (\<lambda>(k, a).
                let matches = filter (\<lambda>(k', b). k' = k) right
                in if matches = [] then [(k, a, nb)] else map (\<lambda>(k', b). (k, a, b)) matches)
             left)
     @ map (\<lambda>(k, b). (k, na, b)) (filter (\<lambda>(k, b). k \<notin> fst ` set left) right)"

text \<open>\<open>df.fillna(0)\<close>: every column of the merged table, the key columns included.\<close>

definition fillna_key :: "key \<Rightarrow> key" where
  "fillna_key k =
     (case k of (cr, ps, dt) \<Rightarrow> (fillna (IntV 0) cr, fillna (IntV 0) ps, fillna (IntV 0) dt))"

definition fillna_row :: "key \<times> (cell \<times> cell) \<times> cell \<Rightarrow> key \<times> (cell \<times> cell) \<times> cell" where
  "fillna_row row =
     (case row of (k, (c, d), r) \<Rightarrow>
        (fillna_key k, (fillna (IntV 0) c, fillna (IntV 0) d), fillna (IntV 0) r))"

text \<open>\<open>df['active'] = df['confirmed'] - df['deaths'] - df['recovered']\<close>, on one row.\<close>

definition add_active :: "key \<times> (cell \<times> cell) \<times> cell \<Rightarrow> error + unified_record" where
  "add_active row =
     (case row of ((cr, ps, dt), (c, d), r) \<Rightarrow>
        (case cell_sub c d of
           Inl e \<Rightarrow> Inl e
         | Inr x \<Rightarrow>
             (case cell_sub x r of
                Inl e \<Rightarrow> Inl e
              | Inr a \<Rightarrow>
                  Inr \<lparr>country_region = cr, province_state = ps, date = dt,
                       confirmed = c, deaths = d, recovered = r, active = a\<rparr>)))"

text \<open>The table after both merges, before the fill.\<close>

definition three_way_join ::
  "long_table \<Rightarrow> long_table \<Rightarrow> long_table \<Rightarrow> (key \<times> (cell \<times> cell) \<times> cell) list"
where
  "three_way_join confirmed_df deaths_df recovered_df =
     outer_merge (Null, Null) Null (outer_merge Null Null confirmed_df deaths_df) recovered_df"

definition merge_datasets ::
  "long_table \<Rightarrow> long_table \<Rightarrow> long_table \<Rightarrow> error + unified_record list"
where
  "merge_datasets confirmed_df deaths_df recovered_df =
     (let df = outer_merge Null Null confirmed_df deaths_df;
          df = outer_merge (Null, Null) Null df recovered_df;
          df = map fillna_row df
      in traverse add_active df)"

definition record_key :: "unified_record \<Rightarrow> key" where
  "record_key u = (country_region u, province_state u, date u)"

section \<open>The whole transformation (transform.py, transform\_all)\<close>

text \<open>
  The merge reads the three key columns and the metric column of a cleaned table
  by label; a missing one is a \<open>KeyError\<close>.
\<close>

definition long_rows :: "string \<Rightarrow> frame \<Rightarrow> error + long_table" where
  "long_rows value_name t =
     (if set [''country_region'', ''province_state'', ''date'', value_name] \<subseteq> set (columns t)
      then Inr (map (\<lambda>r. ((cell_of (columns t) r ''country_region'',
                           cell_of (columns t) r ''province_state'',
                           cell_of (columns t) r ''date''),
                          cell_of (columns t) r value_name))
                    (rows t))
      else Inl KeyError)"

text \<open>
  \<open>transform_all\<close>, with the three tables read from disk as arguments: the three
  tables are reshaped, then cleaned, then merged.
\<close>

definition transform_all ::
  "(string \<Rightarrow> cell option) \<Rightarrow> frame \<Rightarrow> frame \<Rightarrow> frame \<Rightarrow> error + unified_record list"
where
  "transform_all parse confirmed_raw deaths_raw recovered_raw =
     and_then (pivot_to_long_format parse confirmed_raw ''confirmed'') (\<lambda>c1.
     and_then (pivot_to_long_format parse deaths_raw ''deaths'') (\<lambda>d1.
     and_then (pivot_to_long_format parse recovered_raw ''recovered'') (\<lambda>r1.
     and_then (clean_data c1) (\<lambda>c2.
     and_then (clean_data d1) (\<lambda>d2.
     and_then (clean_data r1) (\<lambda>r2.
     and_then (long_rows ''confirmed'' c2) (\<lambda>confirmed_df.
     and_then (long_rows ''deaths'' d2) (\<lambda>deaths_df.
     and_then (long_rows ''recovered'' r2) (\<lambda>recovered_df.
     merge_datasets confirmed_df deaths_df recovered_df)))))))))"

section \<open>The Quality Gate (data\_quality.py)\<close>

text \<open>
  \<open>DataQualityValidator\<close>: the table and the two message lists it appends to. The
  checks read the columns \<open>country_region\<close>, \<open>date\<close>, \<open>confirmed\<close>, \<open>deaths\<close>,
  \<open>recovered\<close> and \<open>active\<close> by name.
\<close>

record validator =
  df :: "unified_record list"
  errors :: "string list"
  warnings :: "string list"

definition init_validator :: "unified_record list \<Rightarrow> validator" where
  "init_validator d = \<lparr>df = d, errors = [], warnings = []\<rparr>"

type_synonym column = "string \<times> (unified_record \<Rightarrow> cell)"

definition critical_columns :: "column list" where
  "critical_columns =
     [(''country_region'', country_region), (''date'', date),
      (''confirmed'', confirmed), (''deaths'', deaths)]"

definition numeric_columns :: "column list" where
  "numeric_columns =
     [(''confirmed'', confirmed), (''deaths'', deaths), (''recovered'', recovered)]"

text \<open>The loop of \<open>check_null_values\<close> over the critical columns.\<close>

fun null_loop :: "unified_record list \<Rightarrow> column list \<Rightarrow> string list \<Rightarrow> string list" where
  "null_loop d [] errs = errs"
| "null_loop d ((col, sel) # cols) errs =
     (let null_count = length (filter (\<lambda>u. isnull (sel u)) d)
      in null_loop d cols
           (if null_count > 0
            then errs @ [''Found '' @ str_nat null_count @ '' NULL values in '' @ col]
            else errs))"

definition check_null_values :: "validator \<Rightarrow> error + (bool \<times> validator)" where
  "check_null_values v =
     (let v' = v\<lparr>errors := null_loop (df v) critical_columns (errors v)\<rparr>
      in Inr (length (errors v') = 0, v'))"

text \<open>The loop of \<open>check_negative_values\<close> over the numeric columns.\<close>

fun negative_loop :: "unified_record list \<Rightarrow> column list \<Rightarrow> string list \<Rightarrow> error + string list" where
  "negative_loop d [] warns = Inr warns"
| "negative_loop d ((col, sel) # cols) warns =
     (case traverse (\<lambda>u. cell_lt0 (sel u)) d of
        Inl e \<Rightarrow> Inl e
      | Inr neg \<Rightarrow>
          (let negative_count = length (filter id neg)
           in negative_loop d cols
                (if negative_count > 0
                 then warns @ [''Found '' @ str_nat negative_count @ '' negative values in '' @ col]
                 else warns)))"

definition check_negative_values :: "validator \<Rightarrow> error + (bool \<times> validator)" where
  "check_negative_values v =
     (case negative_loop (df v) numeric_columns (warnings v) of
        Inl e \<Rightarrow> Inl e
      | Inr warns \<Rightarrow> Inr (True, v\<lparr>warnings := warns\<rparr>))"

text \<open>\<open>Timestamp('2020-01-01')\<close>: 18262 days after the epoch, in nanoseconds.\<close>

definition min_date :: int where
  "min_date = 1577836800000000000"

text \<open>
  \<open>check_date_range\<close> reads the clock (\<open>Timestamp.now()\<close>); the reading is the
  parameter \<open>now\<close>.
\<close>

definition date_invalid :: "int \<Rightarrow> unified_record \<Rightarrow> error + bool" where
  "date_invalid now u =
     (case stamp_cmp (<) (date u) min_date of
        Inl e \<Rightarrow> Inl e
      | Inr early \<Rightarrow>
          (case stamp_cmp (>) (date u) now of
             Inl e \<Rightarrow> Inl e
           | Inr late \<Rightarrow> Inr (early \<or> late)))"

definition check_date_range :: "int \<Rightarrow> validator \<Rightarrow> error + (bool \<times> validator)" where
  "check_date_range now v =
     (case traverse (date_invalid now) (df v) of
        Inl e \<Rightarrow> Inl e
      | Inr flags \<Rightarrow>
          (let invalid_dates = filter id flags
           in Inr (length invalid_dates = 0,
                   if length invalid_dates > 0
                   then v\<lparr>errors := errors v @
                          [''Found '' @ str_nat (length invalid_dates) @ '' records with invalid dates'']\<rparr>
                   else v)))"

definition expected_active :: "unified_record \<Rightarrow> error + cell" where
  "expected_active u =
     (case cell_sub (confirmed u) (deaths u) of
        Inl e \<Rightarrow> Inl e
      | Inr x \<Rightarrow> cell_sub x (recovered u))"

definition check_logical_consistency :: "validator \<Rightarrow> error + (bool \<times> validator)" where
  "check_logical_consistency v =
     (case traverse expected_active (df v) of
        Inl e \<Rightarrow> Inl e
      | Inr expected \<Rightarrow>
          (let inconsistent = length (filter (\<lambda>(u, x). cell_ne (active u) x) (zip (df v) expected))
           in Inr (inconsistent = 0,
                   if inconsistent > 0
                   then v\<lparr>errors := errors v @
                          [''Found '' @ str_nat inconsistent @
                           '' records with inconsistent active calculation'']\<rparr>
                   else v)))"

text \<open>
  \<open>validate_all\<close>: the four checks in their fixed order, each on the validator the
  previous one left. The lines it prints are not part of the result.
\<close>

definition checks :: "int \<Rightarrow> (validator \<Rightarrow> error + (bool \<times> validator)) list" where
  "checks now =
     [check_null_values, check_negative_values, check_date_range now, check_logical_consistency]"

fun run_checks ::
  "(validator \<Rightarrow> error + (bool \<times> validator)) list \<Rightarrow> bool \<Rightarrow> validator \<Rightarrow> error + (bool \<times> validator)"
where
  "run_checks [] all_passed v = Inr (all_passed, v)"
| "run_checks (check_func # rest) all_passed v =
     (case check_func v of
        Inl e \<Rightarrow> Inl e
      | Inr (passed, v') \<Rightarrow> run_checks rest (if \<not> passed then False else all_passed) v')"

definition validate_all :: "int \<Rightarrow> validator \<Rightarrow> error + (bool \<times> string list \<times> string list)" where
  "validate_all now v =
     (case run_checks (checks now) True v of
        Inl e \<Rightarrow> Inl e
      | Inr (all_passed, v') \<Rightarrow> Inr (all_passed, errors v', warnings v'))"

definition validate_data :: "int \<Rightarrow> unified_record list \<Rightarrow> error + (bool \<times> string list \<times> string list)" where
  "validate_data now d = validate_all now (init_validator d)"

section \<open>Tables of the expected types\<close>

text \<open>
  The comparisons and the subtraction raise \<open>TypeError\<close> on cells of the wrong
  kind. A count column holds whole numbers and missing values, the date column
  holds timestamps and missing values.
\<close>

definition numeric :: "cell \<Rightarrow> bool" where
  "numeric c = (case c of Null \<Rightarrow> True | IntV n \<Rightarrow> True | _ \<Rightarrow> False)"

definition temporal :: "cell \<Rightarrow> bool" where
  "temporal c = (case c of Null \<Rightarrow> True | Stamp t \<Rightarrow> True | _ \<Rightarrow> False)"

definition typed_record :: "unified_record \<Rightarrow> bool" where
  "typed_record u \<longleftrightarrow>
     temporal (date u) \<and> numeric (confirmed u) \<and> numeric (deaths u) \<and> numeric (recovered u)"

section \<open>Sample data\<close>

text \<open>Clock readings: 14 November 2023 and 15 June 2025.\<close>

definition clock_2023 :: int where
  "clock_2023 = 1700000000000000000"

definition clock_2025 :: int where
  "clock_2025 = 1750000000000000000"

text \<open>13 September 2020, 3 July 2024, and 22, 23 January 2020.\<close>

definition day_2020_09_13 :: cell where
  "day_2020_09_13 = Stamp 1600000000000000000"

definition day_2024_07_03 :: cell where
  "day_2024_07_03 = Stamp 1720000000000000000"

definition day_2020_01_22 :: cell where
  "day_2020_01_22 = Stamp 1579651200000000000"

definition day_2020_01_23 :: cell where
  "day_2020_01_23 = Stamp 1579737600000000000"

definition sound_record :: unified_record where
  "sound_record =
     \<lparr>country_region = StrV ''France'', province_state = StrV ''All'', date = day_2020_09_13,
      confirmed = IntV 100, deaths = IntV 5, recovered = IntV 10, active = IntV 85\<rparr>"

text \<open>The same record with a date between the two clock readings.\<close>

definition postdated_record :: unified_record where
  "postdated_record = sound_record\<lparr>date := day_2024_07_03\<rparr>"

text \<open>A negative count and a stored \<open>active\<close> that is not the difference.\<close>

definition flawed_record :: unified_record where
  "flawed_record =
     \<lparr>country_region = StrV ''France'', province_state = StrV ''All'', date = day_2020_09_13,
      confirmed = IntV 100, deaths = IntV 5, recovered = IntV (- 10), active = IntV 50\<rparr>"

definition france :: key where
  "france = (StrV ''France'', StrV ''All'', day_2020_01_22)"

definition quebec :: key where
  "quebec = (StrV ''Canada'', StrV ''Quebec'', day_2020_01_22)"

text \<open>Two keys that differ only in the region, missing in one and the number 0 in the other.\<close>

definition no_region :: key where
  "no_region = (Null, StrV ''All'', day_2020_01_22)"

definition region_zero :: key where
  "region_zero = (IntV 0, StrV ''All'', day_2020_01_22)"

text \<open>The two date labels of the sample table are dates, no other text is.\<close>

definition sample_parse :: "string \<Rightarrow> cell option" where
  "sample_parse s =
     (if s = ''1/22/20'' then Some day_2020_01_22
      else if s = ''1/23/20'' then Some day_2020_01_23
      else None)"

definition sample_wide :: frame where
  "sample_wide =
     \<lparr>columns = [''Province/State'', ''Country/Region'', ''Lat'', ''Long'', ''1/22/20'', ''1/23/20''],
      rows = [[Null, StrV ''France'', IntV 46, IntV 2, IntV 10, IntV 20],
              [StrV ''Quebec'', StrV ''Canada'', IntV 52, IntV (- 73), IntV 30, IntV 40]]\<rparr>"

definition sample_long :: frame where
  "sample_long =
     \<lparr>columns = [''Province/State'', ''Country/Region'', ''Lat'', ''Long'', ''date'', ''confirmed''],
      rows = [[Null, StrV ''France'', IntV 46, IntV 2, day_2020_01_22, IntV 10],
              [StrV ''Quebec'', StrV ''Canada'', IntV 52, IntV (- 73), day_2020_01_22, IntV 30],
              [Null, StrV ''France'', IntV 46, IntV 2, day_2020_01_23, IntV 20],
              [StrV ''Quebec'', StrV ''Canada'', IntV 52, IntV (- 73), day_2020_01_23, IntV 40]]\<rparr>"

definition sample_clean :: frame where
  "sample_clean =
     \<lparr>columns = [''province_state'', ''country_region'', ''date'', ''confirmed''],
      rows = [[StrV ''All'', StrV ''France'', day_2020_01_22, IntV 10],
              [StrV ''Quebec'', StrV ''Canada'', day_2020_01_22, IntV 30],
              [StrV ''All'', StrV ''France'', day_2020_01_23, IntV 20],
              [StrV ''Quebec'', StrV ''Canada'', day_2020_01_23, IntV 40]]\<rparr>"

text \<open>A table whose only date label is no date, with one row and with none.\<close>

definition mislabelled :: frame where
  "mislabelled =
     \<lparr>columns = [''Province/State'', ''Country/Region'', ''Lat'', ''Long'', ''total''],
      rows = [[Null, StrV ''France'', IntV 46, IntV 2, IntV 10]]\<rparr>"

definition mislabelled_empty :: frame where
  "mislabelled_empty = mislabelled\<lparr>rows := []\<rparr>"

section \<open>Element-wise operations\<close>

lemma traverse_Inr_length: "traverse f xs = Inr ys \<Longrightarrow> length ys = length xs"
  by (induction xs arbitrary: ys) (auto split: sum.splits)

lemma traverse_Inr_all2: "traverse f xs = Inr ys \<Longrightarrow> list_all2 (\<lambda>x y. f x = Inr y) xs ys"
  by (induction xs arbitrary: ys) (auto split: sum.splits)

lemma traverse_total:
  "(\<And>x. x \<in> set xs \<Longrightarrow> \<exists>y. f x = Inr y) \<Longrightarrow> \<exists>ys. traverse f xs = Inr ys"
  by (induction xs) (fastforce split: sum.splits)+

lemma traverse_Inl:
  "traverse f xs = Inl e \<Longrightarrow> \<exists>x\<in>set xs. f x = Inl e"
  by (induction xs) (auto split: sum.splits)

lemma traverse_fails:
  "x \<in> set xs \<Longrightarrow> f x = Inl e \<Longrightarrow> \<exists>e'. traverse f xs = Inl e'"
  by (induction xs) (auto split: sum.splits)

lemma traverse_map:
  "(\<And>x. x \<in> set xs \<Longrightarrow> f x = Inr (g x)) \<Longrightarrow> traverse f xs = Inr (map g xs)"
  by (induction xs) simp_all

lemma traverse_append:
  "traverse f (xs @ ys) =
     (case traverse f xs of
        Inl e \<Rightarrow> Inl e
      | Inr a \<Rightarrow> (case traverse f ys of Inl e \<Rightarrow> Inl e | Inr b \<Rightarrow> Inr (a @ b)))"
  by (induction xs) (auto split: sum.splits)

lemma traverse_map_map:
  "(\<And>r. r \<in> set rs \<Longrightarrow> g (F r) = Inr (H r)) \<Longrightarrow> traverse g (map F rs) = Inr (map H rs)"
  by (induction rs) simp_all

lemma traverse_concat_map:
  "(\<And>c r. c \<in> set vs \<Longrightarrow> r \<in> set rs \<Longrightarrow> g (F c r) = Inr (H c r)) \<Longrightarrow>
   traverse g (concat (map (\<lambda>c. map (F c) rs) vs)) = Inr (concat (map (\<lambda>c. map (H c) rs) vs))"
proof (induction vs)
  case Nil
  then show ?case by simp
next
  case (Cons c vs)
  have "traverse g (map (F c) rs) = Inr (map (H c) rs)"
    by (rule traverse_map_map) (simp add: Cons.prems)
  moreover have "traverse g (concat (map (\<lambda>c. map (F c) rs) vs))
                   = Inr (concat (map (\<lambda>c. map (H c) rs) vs))"
    by (rule Cons.IH) (simp add: Cons.prems)
  ultimately show ?case
    by (simp add: traverse_append)
qed

lemma traverse_cong_on:
  "(\<And>x. x \<in> set xs \<Longrightarrow> f x = g x) \<Longrightarrow> traverse f xs = traverse g xs"
proof (induction xs)
  case Nil
  then show ?case by simp
next
  case (Cons a xs)
  have "f a = g a" by (rule Cons.prems) simp
  moreover have "traverse f xs = traverse g xs"
    by (rule Cons.IH) (simp add: Cons.prems)
  ultimately show ?case by (simp split: sum.splits)
qed

section \<open>Properties of the Reshaper\<close>

lemma index_of_None: "index_of x xs = None \<longleftrightarrow> x \<notin> set xs"
  by (induction xs) auto

lemma index_of_Some: "index_of x xs = Some i \<Longrightarrow> i < length xs \<and> xs ! i = x"
  by (induction xs arbitrary: i) (auto split: if_splits)

lemma index_of_append_notin:
  "x \<notin> set xs \<Longrightarrow> index_of x (xs @ x # ys) = Some (length xs)"
  by (induction xs) auto

lemma index_of_map_inj:
  "inj_on f (set xs) \<Longrightarrow> x \<in> set xs \<Longrightarrow> index_of (f x) (map f xs) = index_of x xs"
  by (induction xs) (auto simp: inj_on_def)

lemma filter_take_drop:
  "distinct xs \<Longrightarrow> filter (\<lambda>c. c \<notin> set (take n xs)) xs = drop n xs"
proof -
  assume d: "distinct xs"
  have "distinct (take n xs @ drop n xs)" using d by simp
  then have disj: "set (take n xs) \<inter> set (drop n xs) = {}"
    by (simp only: distinct_append) 
  have "filter (\<lambda>c. c \<notin> set (take n xs)) (take n xs @ drop n xs) = drop n xs"
    unfolding filter_append using disj by (auto simp: filter_empty_conv filter_id_conv)
  then show ?thesis by simp
qed

lemma length_concat_map_const:
  "length (concat (map (\<lambda>c. map (g c) rs) vs)) = length rs * length vs"
  by (induction vs) simp_all

lemma melted_rows_length:
  "length (rows (melted t ids var val)) = length (rows t) * length (filter (\<lambda>c. c \<notin> set ids) (columns t))"
  by (simp add: melted_def Let_def length_concat_map_const)

lemma map_column_Inr:
  "map_column c f t = Inr out \<Longrightarrow> columns out = columns t \<and> length (rows out) = length (rows t)"
  by (auto simp: map_column_def split: option.splits sum.splits dest: traverse_Inr_length)

lemma pivot_unfold:
  "pivot_to_long_format parse t v =
     (if v \<in> set (columns t) then Inl ValueError
      else map_column ''date'' (to_datetime parse) (melted t (take 4 (columns t)) ''date'' v))"
  by (simp add: pivot_to_long_format_def melt_def)

lemma pivot_rows_length:
  assumes "distinct (columns t)" "pivot_to_long_format parse t v = Inr out"
  shows "length (rows out) = length (rows t) * (length (columns t) - 4)"
proof -
  have "map_column ''date'' (to_datetime parse) (melted t (take 4 (columns t)) ''date'' v) = Inr out"
    using assms(2) by (simp add: pivot_unfold split: if_splits)
  then have "length (rows out) = length (rows (melted t (take 4 (columns t)) ''date'' v))"
    using map_column_Inr by blast
  also have "\<dots> = length (rows t) * length (drop 4 (columns t))"
    by (simp only: melted_rows_length filter_take_drop [OF assms(1)])
  finally show ?thesis by simp
qed

lemma melted_columns: "columns (melted t ids var val) = ids @ [var, val]"
  by (simp add: melted_def Let_def)

lemma melted_row_mem:
  "row \<in> set (rows (melted t ids var val)) \<longleftrightarrow>
     (\<exists>c r. c \<in> set (columns t) \<and> c \<notin> set ids \<and> r \<in> set (rows t) \<and>
        row = map (cell_of (columns t) r) ids @ [StrV c, cell_of (columns t) r c])"
  by (auto simp: melted_def Let_def)

lemma cell_at_append: "cell_at (xs @ y # ys) (length xs) = y"
  by (simp add: cell_at_def)

lemma date_step:
  assumes "length pre = n"
  shows "(case to_datetime parse (cell_at (pre @ [StrV l, x]) n) of
            Inl e \<Rightarrow> Inl e | Inr v \<Rightarrow> Inr ((pre @ [StrV l, x])[n := v]))
         = (case parse l of None \<Rightarrow> Inl ValueError | Some d \<Rightarrow> Inr (pre @ [d, x]))"
  using assms by (auto simp: cell_at_append list_update_append split: option.splits)

lemma map_column_melted:
  assumes "var \<notin> set ids"
  shows "map_column var f (melted t ids var val) =
     (case traverse (\<lambda>r. case f (cell_at r (length ids)) of
                            Inl e \<Rightarrow> Inl e
                          | Inr d \<Rightarrow> Inr (r[length ids := d]))
                    (rows (melted t ids var val)) of
        Inl e \<Rightarrow> Inl e
      | Inr rs \<Rightarrow> Inr ((melted t ids var val)\<lparr>rows := rs\<rparr>))"
  using index_of_append_notin [OF assms, of "[val]"]
  by (simp add: map_column_def melted_columns)

lemma pivot_success:
  assumes "distinct (columns t)" "''date'' \<notin> set (take 4 (columns t))"
    and "\<forall>l \<in> set (drop 4 (columns t)). parse l \<noteq> None" and "v \<notin> set (columns t)"
  shows "pivot_to_long_format parse t v =
           Inr \<lparr>columns = take 4 (columns t) @ [''date'', v],
                rows = concat (map (\<lambda>l. map (\<lambda>r. map (cell_of (columns t) r) (take 4 (columns t))
                                                  @ [the (parse l), cell_of (columns t) r l])
                                         (rows t))
                                (drop 4 (columns t)))\<rparr>"
proof -
  define ids where "ids = take 4 (columns t)"
  define g where "g = (\<lambda>r. case to_datetime parse (cell_at r (length ids)) of
                   Inl e \<Rightarrow> Inl e | Inr d \<Rightarrow> Inr (r[length ids := d]))"
  define F where "F = (\<lambda>l r. map (cell_of (columns t) r) ids @ [StrV l, cell_of (columns t) r l])"
  define H where "H = (\<lambda>l r. map (cell_of (columns t) r) ids @ [the (parse l), cell_of (columns t) r l])"
  let ?m = "melted t ids ''date'' v"
  have nd: "''date'' \<notin> set ids"
    using assms(2) by (simp add: ids_def)
  have p: "pivot_to_long_format parse t v =
             (case traverse g (rows ?m) of Inl e \<Rightarrow> Inl e | Inr rs \<Rightarrow> Inr (?m\<lparr>rows := rs\<rparr>))"
    unfolding g_def map_column_melted [OF nd, symmetric]
    by (simp add: pivot_unfold ids_def assms(4))
  have vv: "filter (\<lambda>c. c \<notin> set ids) (columns t) = drop 4 (columns t)"
    unfolding ids_def by (rule filter_take_drop [OF assms(1)])
  have m: "?m = \<lparr>columns = ids @ [''date'', v],
                  rows = concat (map (\<lambda>l. map (F l) (rows t)) (drop 4 (columns t)))\<rparr>"
    by (simp add: melted_def vv F_def)
  have step: "g (F l r) = Inr (H l r)" if lm: "l \<in> set (drop 4 (columns t))" for l r
  proof -
    obtain d where "parse l = Some d" using assms(3) lm by auto
    then show ?thesis
      unfolding g_def F_def H_def
      using date_step [where pre = "map (cell_of (columns t) r) ids" and n = "length ids"
        and parse = parse and l = l] by simp
  qed
  have "traverse g (concat (map (\<lambda>l. map (F l) (rows t)) (drop 4 (columns t))))
          = Inr (concat (map (\<lambda>l. map (H l) (rows t)) (drop 4 (columns t))))"
    by (rule traverse_concat_map) (simp add: step)
  then show ?thesis
    unfolding p m by (simp add: H_def ids_def)
qed

text \<open>
  Claim C5. For a wide table with \<open>R\<close> rows and \<open>D\<close> date columns (the columns after
  the first four), the Reshaper returns exactly \<open>R * D\<close> records, one for every
  pair of an input row and a date column, and drops none as a duplicate. The
  table has pairwise distinct labels, as \<open>read_csv\<close> delivers it. Whenever the
  Reshaper returns, the count is \<open>R * D\<close>; and it does return when every date
  label parses, no identifier column is itself labelled \<open>date\<close> and no column
  has the name of the metric: the output is then, date column by date column
  and row by row, the four identifier cells, the parsed date and the cell of
  that row in that column.
\<close>

theorem reshaper_row_count:
  assumes "distinct (columns t)"
  shows "(\<forall>out. pivot_to_long_format parse t v = Inr out \<longrightarrow>
            length (rows out) = length (rows t) * (length (columns t) - 4)) \<and>
         (''date'' \<notin> set (take 4 (columns t)) \<and> v \<notin> set (columns t) \<and>
          (\<forall>l \<in> set (drop 4 (columns t)). parse l \<noteq> None) \<longrightarrow>
            pivot_to_long_format parse t v =
              Inr \<lparr>columns = take 4 (columns t) @ [''date'', v],
                   rows = concat (map (\<lambda>l. map (\<lambda>r. map (cell_of (columns t) r) (take 4 (columns t))
                                                     @ [the (parse l), cell_of (columns t) r l])
                                            (rows t))
                                   (drop 4 (columns t)))\<rparr>)"
  using pivot_rows_length [OF assms] pivot_success [OF assms] by blast

theorem reshaper_row_count_witness:
  "distinct (columns sample_wide) \<and>
   ''date'' \<notin> set (take 4 (columns sample_wide)) \<and>
   ''confirmed'' \<notin> set (columns sample_wide) \<and>
   sample_parse ''1/22/20'' \<noteq> None \<and> sample_parse ''1/23/20'' \<noteq> None \<and>
   pivot_to_long_format sample_parse sample_wide ''confirmed'' = Inr sample_long \<and>
   length (rows sample_long) = 2 * (6 - 4)"
proof -
  have d: "distinct (columns sample_wide)"
    by (simp add: sample_wide_def)
  have p: "pivot_to_long_format sample_parse sample_wide ''confirmed'' = Inr sample_long"
    by code_simp
  have "length (rows sample_long) = length (rows sample_wide) * (length (columns sample_wide) - 4)"
    using reshaper_row_count [OF d, of sample_parse "''confirmed''"] p by blast
  then show ?thesis
    using d p by (simp add: sample_wide_def sample_parse_def)
qed

text \<open>
  Claim C7, as amended. The Reshaper converts the date column of the melted
  table, not the header of the input: a label is read only where a row carries
  it. For a wide table with at least one row, pairwise distinct labels, no
  identifier column labelled \<open>date\<close>, and a date-column label that is no date,
  the Reshaper raises \<open>ValueError\<close> and returns no table.
\<close>

theorem reshaper_needs_a_row_to_reject:
  assumes "distinct (columns t)" "''date'' \<notin> set (take 4 (columns t))"
    and "rows t \<noteq> []" "l \<in> set (drop 4 (columns t))" "parse l = None"
  shows "pivot_to_long_format parse t v = Inl ValueError"
proof -
  define ids where "ids = take 4 (columns t)"
  define g where "g = (\<lambda>r. case to_datetime parse (cell_at r (length ids)) of
                   Inl e \<Rightarrow> Inl e | Inr d \<Rightarrow> Inr (r[length ids := d]))"
  let ?m = "melted t ids ''date'' v"
  have nd: "''date'' \<notin> set ids"
    using assms(2) by (simp add: ids_def)
  have p: "pivot_to_long_format parse t v =
             (if v \<in> set (columns t) then Inl ValueError
              else case traverse g (rows ?m) of
                     Inl e \<Rightarrow> Inl e | Inr rs \<Rightarrow> Inr (?m\<lparr>rows := rs\<rparr>))"
    unfolding g_def map_column_melted [OF nd, symmetric]
    by (simp add: pivot_unfold ids_def)
  obtain r where r: "r \<in> set (rows t)"
    using assms(3) by (cases "rows t") auto
  have "l \<in> set (filter (\<lambda>c. c \<notin> set ids) (columns t))"
    using assms(4) filter_take_drop [OF assms(1), of 4] by (simp add: ids_def)
  then have l: "l \<in> set (columns t)" "l \<notin> set ids"
    by simp_all
  define row where "row = map (cell_of (columns t) r) ids @ [StrV l, cell_of (columns t) r l]"
  have mem: "row \<in> set (rows ?m)"
    unfolding melted_row_mem row_def using r l by blast
  have gf: "g row = Inl ValueError"
    unfolding g_def row_def
    using date_step [where pre = "map (cell_of (columns t) r) ids" and n = "length ids"
        and parse = parse and l = l] assms(5) by simp
  have "\<exists>e'. traverse g (rows ?m) = Inl e'"
    by (rule traverse_fails [where f = g, OF mem gf])
  then obtain e where e: "traverse g (rows ?m) = Inl e"
    by blast
  obtain row' where "g row' = Inl e"
    using traverse_Inl [OF e] by blast
  then have "e = ValueError"
    unfolding g_def
    by (cases "cell_at row' (length ids)") (auto split: sum.splits option.splits)
  then show ?thesis
    using e by (simp add: p)
qed

theorem reshaper_needs_a_row_to_reject_witness:
  "distinct (columns mislabelled) \<and> ''date'' \<notin> set (take 4 (columns mislabelled)) \<and>
   rows mislabelled \<noteq> [] \<and> ''total'' \<in> set (drop 4 (columns mislabelled)) \<and>
   sample_parse ''total'' = None \<and>
   pivot_to_long_format sample_parse mislabelled ''confirmed'' = Inl ValueError"
proof -
  have h: "distinct (columns mislabelled)" "''date'' \<notin> set (take 4 (columns mislabelled))"
    "rows mislabelled \<noteq> []" "''total'' \<in> set (drop 4 (columns mislabelled))"
    "sample_parse ''total'' = None"
    by (simp_all add: mislabelled_def sample_parse_def)
  show ?thesis
    using h reshaper_needs_a_row_to_reject
        [where t = mislabelled and parse = sample_parse and l = "''total''" and v = "''confirmed''", OF h]
    by simp
qed

text \<open>
  The claim as stated fails on a table without rows: its date label is no date,
  and the Reshaper returns an empty long table.
\<close>

theorem reshaper_accepts_bad_label_counterexample:
  "''total'' \<in> set (drop 4 (columns mislabelled_empty)) \<and>
   sample_parse ''total'' = None \<and>
   pivot_to_long_format sample_parse mislabelled_empty ''confirmed'' =
     Inr \<lparr>columns = [''Province/State'', ''Country/Region'', ''Lat'', ''Long'', ''date'', ''confirmed''],
          rows = []\<rparr>"
  by code_simp

section \<open>Properties of the Normalizer\<close>

lemma cell_of_Cons [simp]:
  "cell_of (x # xs) (y # ys) c = (if c = x then y else cell_of xs ys c)"
  by (auto simp: cell_of_def cell_at_def split: option.splits)

lemma cell_of_Nil [simp]: "cell_of [] r c = Null"
  by (simp add: cell_of_def)

lemma cell_of_index:
  "index_of c cols = Some i \<Longrightarrow> cell_of cols r c = cell_at r i"
  by (simp add: cell_of_def)

lemma cell_of_drop:
  assumes "length cols = length r" "c \<notin> set labels"
  shows "cell_of (filter (\<lambda>c. c \<notin> set labels) cols)
           (map snd (filter (\<lambda>(c, v). c \<notin> set labels) (zip cols r))) c = cell_of cols r c"
  using assms by (induction cols r rule: list_induct2) (simp_all, blast)

lemma cell_at_update:
  "cell_at (r[i := v]) j = (if j = i \<and> i < length r then v else cell_at r j)"
  by (auto simp: cell_at_def)

lemma cell_of_update:
  assumes "index_of p cols = Some i" "i < length r"
  shows "cell_of cols (r[i := v]) c = (if c = p then v else cell_of cols r c)"
proof (cases "index_of c cols")
  case None
  then show ?thesis using assms by (auto simp: cell_of_def)
next
  case (Some j)
  have cj: "cols ! j = c" using index_of_Some [OF Some] by simp
  have ci: "cols ! i = p" using index_of_Some [OF assms(1)] by simp
  have "j = i \<longleftrightarrow> c = p"
  proof
    assume "j = i"
    then show "c = p" using cj ci by simp
  next
    assume "c = p"
    then have "Some j = Some i" using Some assms(1) by simp
    then show "j = i" by simp
  qed
  then show ?thesis
    using Some assms by (simp add: cell_of_def cell_at_update)
qed

lemma cell_of_rename:
  assumes "distinct (map f cols)" "c \<in> set cols"
  shows "cell_of (map f cols) r (f c) = cell_of cols r c"
proof -
  have "inj_on f (set cols)" using assms(1) by (simp add: distinct_map)
  then have "index_of (f c) (map f cols) = index_of c cols"
    using assms(2) by (rule index_of_map_inj)
  then show ?thesis by (simp add: cell_of_def)
qed

lemma clean_data_unfold:
  "clean_data t =
     (case index_of ''province_state'' (map rename_label (columns t)) of
        None \<Rightarrow> Inl KeyError
      | Some i \<Rightarrow>
          Inr (drop_columns [''latitude'', ''longitude'']
                 \<lparr>columns = map rename_label (columns t),
                  rows = map (\<lambda>r. r[i := fillna (StrV ''All'') (cell_at r i)]) (rows t)\<rparr>))"
proof (cases "index_of ''province_state'' (map rename_label (columns t))")
  case None
  then show ?thesis by (simp add: clean_data_def map_column_def rename_def)
next
  case (Some i)
  have "traverse (\<lambda>r. case Inr (fillna (StrV ''All'') (cell_at r i)) of
                         Inl e \<Rightarrow> Inl e | Inr v \<Rightarrow> Inr (r[i := v])) (rows t)
          = Inr (map (\<lambda>r. r[i := fillna (StrV ''All'') (cell_at r i)]) (rows t))"
    by (rule traverse_map) simp
  then show ?thesis
    using Some by (simp add: clean_data_def map_column_def rename_def drop_columns_def)
qed

text \<open>
  Claim C6. In every record the Normalizer returns, the sub-region is not
  missing: where it was missing in the input it is exactly \<open>All\<close>, and every
  other cell is the cell of the input, under the renamed label; the coordinate
  columns are gone. The table is rectangular and its labels are still pairwise
  distinct after the renaming. The Normalizer returns whenever the table has a
  sub-region column.
\<close>

theorem normalizer_defaults_sub_region:
  assumes "rectangular t" "distinct (map rename_label (columns t))"
  shows "(''province_state'' \<in> rename_label ` set (columns t) \<longrightarrow> (\<exists>out. clean_data t = Inr out)) \<and>
         (\<forall>out. clean_data t = Inr out \<longrightarrow>
            columns out = filter (\<lambda>c. c \<notin> {''latitude'', ''longitude''})
                            (map rename_label (columns t)) \<and>
            length (rows out) = length (rows t) \<and>
            (\<forall>i < length (rows t).
               cell_of (columns out) (rows out ! i) ''province_state'' \<noteq> Null \<and>
               (\<forall>c \<in> set (columns t).
                  rename_label c \<notin> {''latitude'', ''longitude''} \<longrightarrow>
                  cell_of (columns out) (rows out ! i) (rename_label c) =
                    (if rename_label c = ''province_state'' \<and> cell_of (columns t) (rows t ! i) c = Null
                     then StrV ''All''
                     else cell_of (columns t) (rows t ! i) c))))"
proof (rule conjI)
  show "''province_state'' \<in> rename_label ` set (columns t) \<longrightarrow> (\<exists>out. clean_data t = Inr out)"
  proof
    assume "''province_state'' \<in> rename_label ` set (columns t)"
    then have "index_of ''province_state'' (map rename_label (columns t)) \<noteq> None"
      by (simp add: index_of_None)
    then show "\<exists>out. clean_data t = Inr out"
      by (auto simp: clean_data_unfold)
  qed
next
  have main: "columns out = filter (\<lambda>c. c \<notin> {''latitude'', ''longitude''})
                            (map rename_label (columns t)) \<and>
            length (rows out) = length (rows t) \<and>
            (\<forall>i < length (rows t).
               cell_of (columns out) (rows out ! i) ''province_state'' \<noteq> Null \<and>
               (\<forall>c \<in> set (columns t).
                  rename_label c \<notin> {''latitude'', ''longitude''} \<longrightarrow>
                  cell_of (columns out) (rows out ! i) (rename_label c) =
                    (if rename_label c = ''province_state'' \<and> cell_of (columns t) (rows t ! i) c = Null
                     then StrV ''All''
                     else cell_of (columns t) (rows t ! i) c)))"
    if c: "clean_data t = Inr out" for out
  proof (intro conjI)
  define cols where "cols = map rename_label (columns t)"
  define labels where "labels = [''latitude'', ''longitude'']"
  obtain p where p: "index_of ''province_state'' cols = Some p"
    using c by (cases "index_of ''province_state'' cols") (simp_all add: clean_data_unfold cols_def)
  define upd where "upd = (\<lambda>r :: cell list. r[p := fillna (StrV ''All'') (cell_at r p)])"
  have out: "out = drop_columns labels \<lparr>columns = cols, rows = map upd (rows t)\<rparr>"
    using c p by (simp add: clean_data_unfold cols_def upd_def labels_def)
  have pl: "p < length cols" "cols ! p = ''province_state''"
    using index_of_Some [OF p] by simp_all
  show "columns out = filter (\<lambda>c. c \<notin> {''latitude'', ''longitude''}) (map rename_label (columns t))"
    by (simp add: out drop_columns_def cols_def labels_def)
  show "length (rows out) = length (rows t)"
    by (simp add: out drop_columns_def)
  show "\<forall>i < length (rows t).
               cell_of (columns out) (rows out ! i) ''province_state'' \<noteq> Null \<and>
               (\<forall>c \<in> set (columns t).
                  rename_label c \<notin> {''latitude'', ''longitude''} \<longrightarrow>
                  cell_of (columns out) (rows out ! i) (rename_label c) =
                    (if rename_label c = ''province_state'' \<and> cell_of (columns t) (rows t ! i) c = Null
                     then StrV ''All''
                     else cell_of (columns t) (rows t ! i) c))"
  proof (intro allI impI)
    fix i assume i: "i < length (rows t)"
    define r where "r = rows t ! i"
    have len: "length r = length cols"
      using assms(1) i by (simp add: rectangular_def list_all_length r_def cols_def)
    have r': "rows out ! i = map snd (filter (\<lambda>(c, v). c \<notin> set labels) (zip cols (upd r)))"
      using i by (simp add: out drop_columns_def r_def)
    have co: "columns out = filter (\<lambda>c. c \<notin> set labels) cols"
      by (simp add: out drop_columns_def)
    have look: "cell_of (columns out) (rows out ! i) c = (if c = ''province_state''
                  then fillna (StrV ''All'') (cell_of cols r ''province_state'') else cell_of cols r c)"
      if cl: "c \<notin> set labels" for c
    proof -
      have "cell_of (columns out) (rows out ! i) c = cell_of cols (upd r) c"
        unfolding r' co by (rule cell_of_drop) (simp_all add: len upd_def cl)
      also have "\<dots> = (if c = ''province_state'' then fillna (StrV ''All'') (cell_at r p)
                        else cell_of cols r c)"
        unfolding upd_def by (rule cell_of_update [OF p]) (simp add: len pl)
      finally show ?thesis
        by (simp add: cell_of_index [OF p])
    qed
    have notnull: "cell_of (columns out) (rows out ! i) ''province_state'' \<noteq> Null"
      using look [of "''province_state''"]
      by (simp add: labels_def fillna_def isnull_def)
    have other: "cell_of (columns out) (rows out ! i) (rename_label c) =
                    (if rename_label c = ''province_state'' \<and> cell_of (columns t) r c = Null
                     then StrV ''All'' else cell_of (columns t) r c)"
      if cm: "c \<in> set (columns t)" and keep: "rename_label c \<notin> {''latitude'', ''longitude''}" for c
    proof -
      have ren: "cell_of cols r (rename_label c) = cell_of (columns t) r c"
        unfolding cols_def by (rule cell_of_rename [OF assms(2) cm])
      have "rename_label c \<notin> set labels" using keep by (simp add: labels_def)
      from look [OF this] show ?thesis
        using ren by (auto simp: fillna_def isnull_def)
    qed
    show "cell_of (columns out) (rows out ! i) ''province_state'' \<noteq> Null \<and>
               (\<forall>c \<in> set (columns t).
                  rename_label c \<notin> {''latitude'', ''longitude''} \<longrightarrow>
                  cell_of (columns out) (rows out ! i) (rename_label c) =
                    (if rename_label c = ''province_state'' \<and> cell_of (columns t) (rows t ! i) c = Null
                     then StrV ''All''
                     else cell_of (columns t) (rows t ! i) c))"
      using notnull other unfolding r_def by blast
  qed
  qed
  then show "\<forall>out. clean_data t = Inr out \<longrightarrow>
            columns out = filter (\<lambda>c. c \<notin> {''latitude'', ''longitude''})
                            (map rename_label (columns t)) \<and>
            length (rows out) = length (rows t) \<and>
            (\<forall>i < length (rows t).
               cell_of (columns out) (rows out ! i) ''province_state'' \<noteq> Null \<and>
               (\<forall>c \<in> set (columns t).
                  rename_label c \<notin> {''latitude'', ''longitude''} \<longrightarrow>
                  cell_of (columns out) (rows out ! i) (rename_label c) =
                    (if rename_label c = ''province_state'' \<and> cell_of (columns t) (rows t ! i) c = Null
                     then StrV ''All''
                     else cell_of (columns t) (rows t ! i) c)))"
    by blast
qed

theorem normalizer_defaults_sub_region_witness:
  "rectangular sample_long \<and> distinct (map rename_label (columns sample_long)) \<and>
   ''province_state'' \<in> rename_label ` set (columns sample_long) \<and>
   clean_data sample_long = Inr sample_clean \<and>
   cell_of (columns sample_long) (rows sample_long ! 0) ''Province/State'' = Null \<and>
   cell_of (columns sample_clean) (rows sample_clean ! 0) ''province_state'' = StrV ''All'' \<and>
   cell_of (columns sample_clean) (rows sample_clean ! 0) ''country_region'' = StrV ''France''"
proof -
  have r: "rectangular sample_long"
    by code_simp
  have d: "distinct (map rename_label (columns sample_long))"
    by code_simp
  have c: "clean_data sample_long = Inr sample_clean"
    by code_simp
  have m: "''province_state'' \<in> rename_label ` set (columns sample_long)"
    by code_simp
  have "\<exists>out. clean_data sample_long = Inr out"
    using normalizer_defaults_sub_region [OF r d] m by blast
  moreover have "cell_of (columns sample_long) (rows sample_long ! 0) ''Province/State'' = Null"
    by code_simp
  moreover have "cell_of (columns sample_clean) (rows sample_clean ! 0) ''province_state'' = StrV ''All''"
    by code_simp
  moreover have "cell_of (columns sample_clean) (rows sample_clean ! 0) ''country_region'' = StrV ''France''"
    by code_simp
  ultimately show ?thesis
    using r d c m by blast
qed

section \<open>Properties of the Merger\<close>

lemma outer_merge_matches:
  "set (concat (map (\<lambda>(k, a).
                let matches = filter (\<lambda>(k', b). k' = k) right
                in if matches = [] then [(k, a, nb)] else map (\<lambda>(k', b). (k, a, b)) matches)
             left))
   = {(k, a, b). (k, a) \<in> set left \<and> ((k, b) \<in> set right \<or> k \<notin> fst ` set right \<and> b = nb)}"
  (is "?L = ?R")
proof (intro set_eqI iffI)
  fix x assume "x \<in> ?L"
  then obtain k a where ka: "(k, a) \<in> set left"
    and x: "x \<in> set (let matches = filter (\<lambda>(k', b). k' = k) right
                in if matches = [] then [(k, a, nb)] else map (\<lambda>(k', b). (k, a, b)) matches)"
    by auto
  show "x \<in> ?R"
  proof (cases "filter (\<lambda>(k', b). k' = k) right = []")
    case True
    then have "k \<notin> fst ` set right"
      by (auto simp: filter_empty_conv)
    then show ?thesis using x True ka by simp
  next
    case False
    then show ?thesis using x ka by auto
  qed
next
  fix x assume "x \<in> ?R"
  then obtain k a b where x: "x = (k, a, b)" and ka: "(k, a) \<in> set left"
    and b: "(k, b) \<in> set right \<or> k \<notin> fst ` set right \<and> b = nb"
    by auto
  have "x \<in> set (let matches = filter (\<lambda>(k', b). k' = k) right
                in if matches = [] then [(k, a, nb)] else map (\<lambda>(k', b). (k, a, b)) matches)"
  proof (cases "filter (\<lambda>(k', b). k' = k) right = []")
    case True
    then have "k \<notin> fst ` set right"
      by (auto simp: filter_empty_conv)
    then show ?thesis using b True x by force
  next
    case False
    then have "k \<in> fst ` set right"
      by (auto simp: filter_empty_conv) force
    then have "(k, b) \<in> set right" using b by simp
    then show ?thesis using False x by (auto simp: Let_def image_iff)
  qed
  then show "x \<in> ?L" using ka by auto
qed

lemma outer_merge_set:
  "set (outer_merge na nb left right) =
     {(k, a, b). (k, a) \<in> set left \<and> ((k, b) \<in> set right \<or> k \<notin> fst ` set right \<and> b = nb)}
     \<union> {(k, a, b). k \<notin> fst ` set left \<and> (k, b) \<in> set right \<and> a = na}"
  unfolding outer_merge_def set_append outer_merge_matches
  by auto

lemma outer_merge_mem:
  "(k, a, b) \<in> set (outer_merge na nb left right) \<longleftrightarrow>
     (k, a) \<in> set left \<and> ((k, b) \<in> set right \<or> k \<notin> fst ` set right \<and> b = nb)
     \<or> k \<notin> fst ` set left \<and> (k, b) \<in> set right \<and> a = na"
  by (simp add: outer_merge_set)

lemma outer_merge_keys:
  "fst ` set (outer_merge na nb left right) = fst ` set left \<union> fst ` set right"
proof (intro set_eqI iffI)
  fix k assume "k \<in> fst ` set (outer_merge na nb left right)"
  then obtain a b where "(k, a, b) \<in> set (outer_merge na nb left right)"
    by auto
  then show "k \<in> fst ` set left \<union> fst ` set right"
    unfolding outer_merge_mem by (auto simp: image_iff) force+
next
  fix k assume k: "k \<in> fst ` set left \<union> fst ` set right"
  show "k \<in> fst ` set (outer_merge na nb left right)"
  proof (cases "k \<in> fst ` set left")
    case True
    then obtain a where a: "(k, a) \<in> set left" by auto
    show ?thesis
    proof (cases "k \<in> fst ` set right")
      case True
      then obtain b where "(k, b) \<in> set right" by auto
      then have "(k, a, b) \<in> set (outer_merge na nb left right)"
        using a by (simp add: outer_merge_mem)
      then show ?thesis by force
    next
      case False
      then have "(k, a, nb) \<in> set (outer_merge na nb left right)"
        using a by (simp add: outer_merge_mem)
      then show ?thesis by force
    qed
  next
    case False
    then obtain b where "(k, b) \<in> set right" using k by auto
    then have "(k, na, b) \<in> set (outer_merge na nb left right)"
      using False by (simp add: outer_merge_mem)
    then show ?thesis by force
  qed
qed




lemma three_way_join_keys:
  "fst ` set (three_way_join c d r) = fst ` set c \<union> fst ` set d \<union> fst ` set r"
  by (simp add: three_way_join_def outer_merge_keys)

lemma merge_datasets_join:
  "merge_datasets c d r = traverse add_active (map fillna_row (three_way_join c d r))"
  by (simp add: merge_datasets_def three_way_join_def)

lemma fillna_not_null [simp]: "fillna (IntV 0) x \<noteq> Null"
  by (simp add: fillna_def isnull_def)

lemma cell_sub_filled:
  "cell_sub a b = Inr x \<Longrightarrow> a \<noteq> Null \<Longrightarrow> b \<noteq> Null \<Longrightarrow>
     \<exists>m n. a = IntV m \<and> b = IntV n \<and> x = IntV (m - n)"
  by (cases a; cases b) auto

lemma add_active_Inr:
  assumes "add_active ((cr, ps, dt), (x, y), z) = Inr u"
  shows "record_key u = (cr, ps, dt) \<and> confirmed u = x \<and> deaths u = y \<and> recovered u = z \<and>
         (\<exists>w. cell_sub x y = Inr w \<and> cell_sub w z = Inr (active u))"
  using assms by (auto simp: add_active_def record_key_def split: sum.splits)

lemma add_active_filled:
  assumes "add_active (fillna_row (k, (x, y), z)) = Inr u"
  shows "record_key u = fillna_key k \<and>
         confirmed u = fillna (IntV 0) x \<and> deaths u = fillna (IntV 0) y \<and>
         recovered u = fillna (IntV 0) z \<and>
         (\<exists>a b e. confirmed u = IntV a \<and> deaths u = IntV b \<and> recovered u = IntV e \<and>
                   active u = IntV (a - b - e))"
proof -
  obtain cr ps dt where k: "fillna_key k = (cr, ps, dt)" by (cases "fillna_key k")
  have "add_active ((cr, ps, dt), (fillna (IntV 0) x, fillna (IntV 0) y), fillna (IntV 0) z) = Inr u"
    using assms by (simp add: fillna_row_def k)
  from add_active_Inr [OF this] obtain w where u:
    "record_key u = (cr, ps, dt)" "confirmed u = fillna (IntV 0) x" "deaths u = fillna (IntV 0) y"
    "recovered u = fillna (IntV 0) z"
    "cell_sub (fillna (IntV 0) x) (fillna (IntV 0) y) = Inr w" "cell_sub w (fillna (IntV 0) z) = Inr (active u)"
    by blast
  obtain a b where ab: "fillna (IntV 0) x = IntV a" "fillna (IntV 0) y = IntV b" "w = IntV (a - b)"
    using cell_sub_filled [OF u(5)] by auto
  have "w \<noteq> Null" using ab(3) by simp
  then obtain e where e: "fillna (IntV 0) z = IntV e" "active u = IntV (a - b - e)"
    using cell_sub_filled [OF u(6)] ab(3) by auto
  show ?thesis
    using u(1-4) k ab(1,2) e by simp
qed

lemma merge_datasets_rows:
  assumes "merge_datasets c d r = Inr out" "u \<in> set out"
  shows "\<exists>k x y z. (k, (x, y), z) \<in> set (three_way_join c d r) \<and>
           add_active (fillna_row (k, (x, y), z)) = Inr u"
proof -
  let ?J = "three_way_join c d r"
  have a: "list_all2 (\<lambda>j u. add_active j = Inr u) (map fillna_row ?J) out"
    using assms(1) traverse_Inr_all2 by (simp add: merge_datasets_join)
  have len: "length out = length ?J"
    using list_all2_lengthD [OF a] by simp
  obtain i where i: "i < length out" "out ! i = u"
    using assms(2) by (auto simp: in_set_conv_nth)
  have "add_active (map fillna_row ?J ! i) = Inr (out ! i)"
    using list_all2_nthD [OF a, of i] i(1) len by simp
  then have row: "add_active (fillna_row (?J ! i)) = Inr u"
    using i len by simp
  obtain k x y z where kxyz: "?J ! i = (k, (x, y), z)"
    by (cases "?J ! i") auto
  have "(k, (x, y), z) \<in> set ?J"
    using i(1) len kxyz nth_mem [of i ?J] by simp
  then show ?thesis
    using row kxyz by (intro exI [of _ k] exI [of _ x] exI [of _ y] exI [of _ z]) simp
qed

lemma merge_datasets_keys:
  assumes "merge_datasets c d r = Inr out"
  shows "map record_key out = map (fillna_key \<circ> fst) (three_way_join c d r)"
proof -
  have a: "list_all2 (\<lambda>j u. add_active j = Inr u) (map fillna_row (three_way_join c d r)) out"
    using assms traverse_Inr_all2 by (simp add: merge_datasets_join)
  have len: "length out = length (three_way_join c d r)"
    using a by (simp add: list_all2_lengthD [symmetric])
  show ?thesis
  proof (rule nth_equalityI)
    show "length (map record_key out) = length (map (fillna_key \<circ> fst) (three_way_join c d r))"
      using len by simp
  next
    fix i assume "i < length (map record_key out)"
    then have i: "i < length (three_way_join c d r)" using len by simp
    obtain k x y z where row: "three_way_join c d r ! i = (k, (x, y), z)"
      by (cases "three_way_join c d r ! i") auto
    have "add_active (map fillna_row (three_way_join c d r) ! i) = Inr (out ! i)"
      using list_all2_nthD [OF a, of i] i by simp
    then have "add_active (fillna_row (k, (x, y), z)) = Inr (out ! i)"
      using i row by simp
    then have "record_key (out ! i) = fillna_key k"
      using add_active_filled by blast
    then show "map record_key out ! i = map (fillna_key \<circ> fst) (three_way_join c d r) ! i"
      using i len row by simp
  qed
qed








lemma null_loop_no_nulls:
  "(\<And>col sel u. (col, sel) \<in> set cols \<Longrightarrow> u \<in> set d \<Longrightarrow> sel u \<noteq> Null) \<Longrightarrow>
   null_loop d cols errs = errs"
proof (induction cols arbitrary: errs)
  case Nil
  then show ?case by simp
next
  case (Cons c cols)
  obtain col sel where c: "c = (col, sel)" by (cases c)
  have "filter (\<lambda>u. isnull (sel u)) d = []"
    using Cons.prems [of col sel] by (simp add: c filter_empty_conv isnull_def)
  moreover have "null_loop d cols errs = errs"
    using Cons.IH Cons.prems by (meson list.set_intros(2))
  ultimately show ?case by (simp add: c)
qed

lemma merge_datasets_no_nulls:
  assumes "merge_datasets c d r = Inr out" "u \<in> set out"
  shows "country_region u \<noteq> Null \<and> province_state u \<noteq> Null \<and> date u \<noteq> Null \<and>
         confirmed u \<noteq> Null \<and> deaths u \<noteq> Null \<and> recovered u \<noteq> Null \<and> active u \<noteq> Null"
proof -
  obtain k x y z where a: "add_active (fillna_row (k, (x, y), z)) = Inr u"
    using merge_datasets_rows [OF assms] by blast
  note f = add_active_filled [OF a]
  obtain cr ps dt where k: "k = (cr, ps, dt)" by (cases k)
  have "record_key u = (fillna (IntV 0) cr, fillna (IntV 0) ps, fillna (IntV 0) dt)"
    using f by (simp add: k fillna_key_def)
  then have "country_region u \<noteq> Null \<and> province_state u \<noteq> Null \<and> date u \<noteq> Null"
    by (simp add: record_key_def)
  moreover have "confirmed u \<noteq> Null \<and> deaths u \<noteq> Null \<and> recovered u \<noteq> Null \<and> active u \<noteq> Null"
    using f by auto
  ultimately show ?thesis by simp
qed

lemma zip_map_mem: "(a, b) \<in> set (zip xs (map f xs)) \<Longrightarrow> a \<in> set xs \<and> b = f a"
  by (induction xs) auto









text \<open>
  Claim C10. The fill after the joins reaches every column. In every row the
  Merger returns, no field is missing, the key fields included; on such a table
  the nullness rule of the Quality Gate appends no error and passes when none
  was there before; and every key of an input table is in the output in its
  zero-filled form, so a missing region or date of the source has become 0
  without any report.
\<close>

theorem merger_fills_every_column:
  assumes "merge_datasets c d r = Inr out"
  shows "(\<forall>u \<in> set out.
            country_region u \<noteq> Null \<and> province_state u \<noteq> Null \<and> date u \<noteq> Null \<and>
            confirmed u \<noteq> Null \<and> deaths u \<noteq> Null \<and> recovered u \<noteq> Null \<and> active u \<noteq> Null) \<and>
         (\<forall>v. df v = out \<longrightarrow> check_null_values v = Inr (errors v = [], v)) \<and>
         (\<forall>k \<in> fst ` (set c \<union> set d \<union> set r). \<exists>u \<in> set out. record_key u = fillna_key k)"
proof -
  have filled: "\<forall>u \<in> set out.
            country_region u \<noteq> Null \<and> province_state u \<noteq> Null \<and> date u \<noteq> Null \<and>
            confirmed u \<noteq> Null \<and> deaths u \<noteq> Null \<and> recovered u \<noteq> Null \<and> active u \<noteq> Null"
    using merge_datasets_no_nulls [OF assms] by blast
  have gate: "check_null_values v = Inr (errors v = [], v)" if v: "df v = out" for v
  proof -
    have "null_loop (df v) critical_columns (errors v) = errors v"
    proof (rule null_loop_no_nulls)
      fix col sel u
      assume "(col, sel) \<in> set critical_columns" "u \<in> set (df v)"
      then show "sel u \<noteq> Null"
        using filled v by (auto simp: critical_columns_def)
    qed
    then show ?thesis
      by (simp add: check_null_values_def)
  qed
  have keys: "\<exists>u \<in> set out. record_key u = fillna_key k"
    if k: "k \<in> fst ` (set c \<union> set d \<union> set r)" for k
  proof -
    have "k \<in> set (map fst (three_way_join c d r))"
      using k three_way_join_keys [of c d r] by (simp add: image_Un)
    then have "fillna_key k \<in> fillna_key ` set (map fst (three_way_join c d r))"
      by (rule imageI)
    moreover have "map record_key out = map fillna_key (map fst (three_way_join c d r))"
      using merge_datasets_keys [OF assms] by simp
    ultimately have "fillna_key k \<in> set (map record_key out)"
      by (simp only: set_map)
    then show ?thesis by auto
  qed
  show ?thesis
    using filled gate keys by blast
qed

theorem merger_fills_every_column_witness:
  "merge_datasets [(no_region, IntV 1)] [] [] =
     Inr [\<lparr>country_region = IntV 0, province_state = StrV ''All'', date = day_2020_01_22,
           confirmed = IntV 1, deaths = IntV 0, recovered = IntV 0, active = IntV 1\<rparr>] \<and>
   fillna_key no_region = region_zero \<and>
   check_null_values (init_validator
       [\<lparr>country_region = IntV 0, province_state = StrV ''All'', date = day_2020_01_22,
           confirmed = IntV 1, deaths = IntV 0, recovered = IntV 0, active = IntV 1\<rparr>])
     = Inr (True, init_validator
       [\<lparr>country_region = IntV 0, province_state = StrV ''All'', date = day_2020_01_22,
           confirmed = IntV 1, deaths = IntV 0, recovered = IntV 0, active = IntV 1\<rparr>])"
proof -
  let ?out = "[\<lparr>country_region = IntV 0, province_state = StrV ''All'', date = day_2020_01_22,
           confirmed = IntV 1, deaths = IntV 0, recovered = IntV 0, active = IntV 1\<rparr>]"
  have m: "merge_datasets [(no_region, IntV 1)] [] [] = Inr ?out"
    by code_simp
  have k: "fillna_key no_region = region_zero"
    by code_simp
  have "check_null_values (init_validator ?out)
          = Inr (errors (init_validator ?out) = [], init_validator ?out)"
    using merger_fills_every_column [OF m] by (simp add: init_validator_def)
  then show ?thesis
    using m k by (simp add: init_validator_def)
qed

text \<open>
  Claim C9. On a table that the Merger returned, taken as it is, the
  consistency check of the Quality Gate finds no inconsistent record: it
  passes and leaves the error list as it was.
\<close>

theorem merger_output_is_consistent:
  assumes "merge_datasets c d r = Inr (df v)"
  shows "check_logical_consistency v = Inr (True, v)"
proof -
  have row: "expected_active u = Inr (active u) \<and> \<not> cell_ne (active u) (active u)"
    if mem: "u \<in> set (df v)" for u
  proof -
    obtain k x y z where a: "add_active (fillna_row (k, (x, y), z)) = Inr u"
      using merge_datasets_rows [OF assms mem] by blast
    obtain a b e where "confirmed u = IntV a" "deaths u = IntV b" "recovered u = IntV e"
      "active u = IntV (a - b - e)"
      using add_active_filled [OF a] by blast
    then show ?thesis
      by (simp add: expected_active_def cell_ne_def isnull_def)
  qed
  have t: "traverse expected_active (df v) = Inr (map active (df v))"
    by (rule traverse_map) (simp add: row)
  have "filter (\<lambda>(u, x). cell_ne (active u) x) (zip (df v) (map active (df v))) = []"
    unfolding filter_empty_conv using row zip_map_mem by fastforce
  then show ?thesis
    by (simp add: check_logical_consistency_def t)
qed

theorem merger_output_is_consistent_witness:
  "merge_datasets [(france, IntV 1)] [(france, IntV 5)] [(quebec, IntV 2)] =
     Inr (df (init_validator
       [\<lparr>country_region = StrV ''France'', province_state = StrV ''All'', date = day_2020_01_22,
           confirmed = IntV 1, deaths = IntV 5, recovered = IntV 0, active = IntV (- 4)\<rparr>,
        \<lparr>country_region = StrV ''Canada'', province_state = StrV ''Quebec'', date = day_2020_01_22,
           confirmed = IntV 0, deaths = IntV 0, recovered = IntV 2, active = IntV (- 2)\<rparr>])) \<and>
   check_logical_consistency (init_validator
       [\<lparr>country_region = StrV ''France'', province_state = StrV ''All'', date = day_2020_01_22,
           confirmed = IntV 1, deaths = IntV 5, recovered = IntV 0, active = IntV (- 4)\<rparr>,
        \<lparr>country_region = StrV ''Canada'', province_state = StrV ''Quebec'', date = day_2020_01_22,
           confirmed = IntV 0, deaths = IntV 0, recovered = IntV 2, active = IntV (- 2)\<rparr>])
     = Inr (True, init_validator
       [\<lparr>country_region = StrV ''France'', province_state = StrV ''All'', date = day_2020_01_22,
           confirmed = IntV 1, deaths = IntV 5, recovered = IntV 0, active = IntV (- 4)\<rparr>,
        \<lparr>country_region = StrV ''Canada'', province_state = StrV ''Quebec'', date = day_2020_01_22,
           confirmed = IntV 0, deaths = IntV 0, recovered = IntV 2, active = IntV (- 2)\<rparr>])"
proof -
  let ?v = "init_validator
       [\<lparr>country_region = StrV ''France'', province_state = StrV ''All'', date = day_2020_01_22,
           confirmed = IntV 1, deaths = IntV 5, recovered = IntV 0, active = IntV (- 4)\<rparr>,
        \<lparr>country_region = StrV ''Canada'', province_state = StrV ''Quebec'', date = day_2020_01_22,
           confirmed = IntV 0, deaths = IntV 0, recovered = IntV 2, active = IntV (- 2)\<rparr>]"
  have m: "merge_datasets [(france, IntV 1)] [(france, IntV 5)] [(quebec, IntV 2)] = Inr (df ?v)"
    by code_simp
  show ?thesis
    using m merger_output_is_consistent [OF m] by blast
qed

section \<open>Properties of the Quality Gate\<close>

lemma null_loop_appends: "\<exists>app. null_loop d cols errs = errs @ app"
proof (induction cols arbitrary: errs)
  case Nil
  then show ?case by simp
next
  case (Cons c cols)
  obtain col sel where c: "c = (col, sel)" by (cases c)
  show ?case
    using Cons [of "errs @ [''Found '' @ str_nat (length (filter (\<lambda>u. isnull (sel u)) d)) @ '' NULL values in '' @ col]"]
      Cons [of errs]
    by (auto simp: c Let_def)
qed

lemma check_null_values_result:
  "\<exists>v'. check_null_values v = Inr (errors v' = [], v') \<and> df v' = df v \<and> warnings v' = warnings v
     \<and> (\<exists>app. errors v' = errors v @ app)"
  using null_loop_appends [of "df v" critical_columns "errors v"]
  by (auto simp: check_null_values_def Let_def)

lemma check_negative_values_result:
  "check_negative_values v = Inr (p, v') \<Longrightarrow> p \<and> errors v' = errors v \<and> df v' = df v"
  by (auto simp: check_negative_values_def split: sum.splits)

lemma check_date_range_result:
  "check_date_range now v = Inr (p, v') \<Longrightarrow>
     df v' = df v \<and> warnings v' = warnings v \<and> (\<exists>app. errors v' = errors v @ app) \<and> (p \<longleftrightarrow> errors v' = errors v)"
  by (auto simp: check_date_range_def Let_def split: sum.splits if_splits)

lemma check_logical_consistency_result:
  "check_logical_consistency v = Inr (p, v') \<Longrightarrow>
     df v' = df v \<and> warnings v' = warnings v \<and> (\<exists>app. errors v' = errors v @ app) \<and> (p \<longleftrightarrow> errors v' = errors v)"
  by (auto simp: check_logical_consistency_def Let_def split: sum.splits if_splits)

lemma validate_all_steps:
  "validate_all now v0 = Inr (admit, errs, warns) \<longleftrightarrow>
     (\<exists>p1 v1 p2 v2 p3 v3 p4 v4.
        check_null_values v0 = Inr (p1, v1) \<and> check_negative_values v1 = Inr (p2, v2) \<and>
        check_date_range now v2 = Inr (p3, v3) \<and> check_logical_consistency v3 = Inr (p4, v4) \<and>
        admit = (p1 \<and> p2 \<and> p3 \<and> p4) \<and> errs = errors v4 \<and> warns = warnings v4)"
  by (auto simp: validate_all_def checks_def split: sum.splits)

lemma cell_lt0_numeric: "numeric c \<Longrightarrow> \<exists>b. cell_lt0 c = Inr b"
  by (cases c) (auto simp: numeric_def)

lemma stamp_cmp_temporal: "temporal c \<Longrightarrow> \<exists>b. stamp_cmp rel c x = Inr b"
  by (cases c) (auto simp: temporal_def)

lemma cell_sub_numeric: "numeric a \<Longrightarrow> numeric b \<Longrightarrow> \<exists>c. cell_sub a b = Inr c \<and> numeric c"
  by (cases a; cases b) (auto simp: numeric_def)

lemma negative_loop_total:
  "(\<And>col sel u. (col, sel) \<in> set cols \<Longrightarrow> u \<in> set d \<Longrightarrow> numeric (sel u)) \<Longrightarrow>
   \<exists>ws. negative_loop d cols warns = Inr ws"
proof (induction cols arbitrary: warns)
  case Nil
  then show ?case by simp
next
  case (Cons c cols)
  obtain col sel where c: "c = (col, sel)" by (cases c)
  have "\<And>u. u \<in> set d \<Longrightarrow> \<exists>b. cell_lt0 (sel u) = Inr b"
    using Cons.prems [of col sel] by (simp add: c cell_lt0_numeric)
  then obtain neg where neg: "traverse (\<lambda>u. cell_lt0 (sel u)) d = Inr neg"
    using traverse_total [of d "\<lambda>u. cell_lt0 (sel u)"] by blast
  have rest: "\<And>w. \<exists>ws. negative_loop d cols w = Inr ws"
    using Cons.IH Cons.prems by (meson list.set_intros(2))
  show ?case
    using rest by (simp add: c neg Let_def)
qed

lemma check_negative_values_total:
  "list_all typed_record (df v) \<Longrightarrow> \<exists>v'. check_negative_values v = Inr (True, v')"
proof -
  assume t: "list_all typed_record (df v)"
  have "\<exists>ws. negative_loop (df v) numeric_columns (warnings v) = Inr ws"
  proof (rule negative_loop_total)
    fix col sel u
    assume "(col, sel) \<in> set numeric_columns" "u \<in> set (df v)"
    then show "numeric (sel u)"
      using t by (auto simp: numeric_columns_def list_all_iff typed_record_def)
  qed
  then show ?thesis
    by (auto simp: check_negative_values_def)
qed

lemma check_date_range_total:
  "list_all typed_record (df v) \<Longrightarrow> \<exists>r. check_date_range now v = Inr r"
proof -
  assume t: "list_all typed_record (df v)"
  have "\<And>u. u \<in> set (df v) \<Longrightarrow> \<exists>b. date_invalid now u = Inr b"
  proof -
    fix u assume "u \<in> set (df v)"
    then have tu: "temporal (date u)"
      using t by (simp add: list_all_iff typed_record_def)
    obtain a b where "stamp_cmp (<) (date u) min_date = Inr a" "stamp_cmp (>) (date u) now = Inr b"
      using stamp_cmp_temporal [OF tu] by meson
    then show "\<exists>b. date_invalid now u = Inr b"
      by (simp add: date_invalid_def)
  qed
  then obtain flags where "traverse (date_invalid now) (df v) = Inr flags"
    using traverse_total [of "df v" "date_invalid now"] by blast
  then show ?thesis
    by (simp add: check_date_range_def Let_def)
qed

lemma check_logical_consistency_total:
  "list_all typed_record (df v) \<Longrightarrow> \<exists>r. check_logical_consistency v = Inr r"
proof -
  assume t: "list_all typed_record (df v)"
  have "\<And>u. u \<in> set (df v) \<Longrightarrow> \<exists>x. expected_active u = Inr x"
  proof -
    fix u assume "u \<in> set (df v)"
    then have n: "numeric (confirmed u)" "numeric (deaths u)" "numeric (recovered u)"
      using t by (simp_all add: list_all_iff typed_record_def)
    obtain x where x: "cell_sub (confirmed u) (deaths u) = Inr x" "numeric x"
      using cell_sub_numeric [OF n(1) n(2)] by blast
    obtain y where "cell_sub x (recovered u) = Inr y"
      using cell_sub_numeric [OF x(2) n(3)] by blast
    then show "\<exists>x. expected_active u = Inr x"
      by (simp add: expected_active_def x)
  qed
  then obtain ex where "traverse expected_active (df v) = Inr ex"
    using traverse_total [of "df v" expected_active] by blast
  then show ?thesis
    by (simp add: check_logical_consistency_def Let_def)
qed

lemma validate_data_total:
  assumes "list_all typed_record d"
  shows "\<exists>admit errs warns. validate_data now d = Inr (admit, errs, warns)"
proof -
  let ?v0 = "init_validator d"
  obtain v1 where v1: "check_null_values ?v0 = Inr (errors v1 = [], v1)" "df v1 = df ?v0"
    using check_null_values_result [of ?v0] by blast
  have d0: "df ?v0 = d" by (simp add: init_validator_def)
  obtain v2 where v2: "check_negative_values v1 = Inr (True, v2)"
    using check_negative_values_total [of v1] assms v1(2) d0 by auto
  have d2: "df v2 = d"
    using check_negative_values_result [OF v2] v1(2) d0 by simp
  obtain p3 v3 where v3: "check_date_range now v2 = Inr (p3, v3)"
    using check_date_range_total [of v2 now] assms d2 by auto
  have d3: "df v3 = d"
    using check_date_range_result [OF v3] d2 by simp
  obtain p4 v4 where v4: "check_logical_consistency v3 = Inr (p4, v4)"
    using check_logical_consistency_total [of v3] assms d3 by auto
  show ?thesis
    unfolding validate_data_def validate_all_steps
    using v1(1) v2 v3 v4 by blast
qed

text \<open>
  Claim C1. The Quality Gate admits a table exactly when no blocking rule
  produced an error. On a fresh validator the four checks run in order, each on
  what the previous one left; the negative-values check always passes and
  leaves the error list alone; each of the three blocking checks passes exactly
  when it appended nothing; the flag is the conjunction of the three, which is
  to say that the error list is empty; and the report holds the two lists
  whatever the flag. The gate does return a report on every table of the
  expected types.
\<close>

theorem gate_admit_iff_no_blocking_error:
  "(list_all typed_record d \<longrightarrow> (\<exists>admit errs warns. validate_data now d = Inr (admit, errs, warns))) \<and>
   (\<forall>admit errs warns. validate_data now d = Inr (admit, errs, warns) \<longrightarrow>
      (admit \<longleftrightarrow> errs = []) \<and>
      (\<exists>p1 v1 v2 p3 v3 p4 v4.
          check_null_values (init_validator d) = Inr (p1, v1) \<and>
          check_negative_values v1 = Inr (True, v2) \<and> errors v2 = errors v1 \<and>
          check_date_range now v2 = Inr (p3, v3) \<and>
          check_logical_consistency v3 = Inr (p4, v4) \<and>
          (p1 \<longleftrightarrow> errors v1 = []) \<and>
          (p3 \<longleftrightarrow> errors v3 = errors v2) \<and>
          (p4 \<longleftrightarrow> errors v4 = errors v3) \<and>
          admit = (p1 \<and> p3 \<and> p4) \<and> errs = errors v4 \<and> warns = warnings v4))"
proof (intro conjI impI allI)
  assume "list_all typed_record d"
  then show "\<exists>admit errs warns. validate_data now d = Inr (admit, errs, warns)"
    by (rule validate_data_total)
next
  fix admit errs warns
  assume r: "validate_data now d = Inr (admit, errs, warns)"
  then obtain p1 v1 p2 v2 p3 v3 p4 v4 where s:
    "check_null_values (init_validator d) = Inr (p1, v1)"
    "check_negative_values v1 = Inr (p2, v2)"
    "check_date_range now v2 = Inr (p3, v3)"
    "check_logical_consistency v3 = Inr (p4, v4)"
    "admit = (p1 \<and> p2 \<and> p3 \<and> p4)" "errs = errors v4" "warns = warnings v4"
    unfolding validate_data_def validate_all_steps by blast
  have n1: "p1 \<longleftrightarrow> errors v1 = []"
    using check_null_values_result [of "init_validator d"] s(1) by auto
  have n2: "p2" "errors v2 = errors v1"
    using check_negative_values_result [OF s(2)] by simp_all
  have n3: "p3 \<longleftrightarrow> errors v3 = errors v2" "\<exists>app. errors v3 = errors v2 @ app"
    using check_date_range_result [OF s(3)] by simp_all
  have n4: "p4 \<longleftrightarrow> errors v4 = errors v3" "\<exists>app. errors v4 = errors v3 @ app"
    using check_logical_consistency_result [OF s(4)] by simp_all
  show "admit \<longleftrightarrow> errs = []"
    using s(5,6) n1 n2 n3 n4 by auto
  show "\<exists>p1 v1 v2 p3 v3 p4 v4.
          check_null_values (init_validator d) = Inr (p1, v1) \<and>
          check_negative_values v1 = Inr (True, v2) \<and> errors v2 = errors v1 \<and>
          check_date_range now v2 = Inr (p3, v3) \<and>
          check_logical_consistency v3 = Inr (p4, v4) \<and>
          (p1 \<longleftrightarrow> errors v1 = []) \<and>
          (p3 \<longleftrightarrow> errors v3 = errors v2) \<and>
          (p4 \<longleftrightarrow> errors v4 = errors v3) \<and>
          admit = (p1 \<and> p3 \<and> p4) \<and> errs = errors v4 \<and> warns = warnings v4"
  proof (intro exI conjI)
    show "check_null_values (init_validator d) = Inr (p1, v1)" by (rule s(1))
    show "check_negative_values v1 = Inr (True, v2)" using s(2) n2(1) by simp
    show "errors v2 = errors v1" by (rule n2(2))
    show "check_date_range now v2 = Inr (p3, v3)" by (rule s(3))
    show "check_logical_consistency v3 = Inr (p4, v4)" by (rule s(4))
    show "p1 \<longleftrightarrow> errors v1 = []" by (rule n1)
    show "p3 \<longleftrightarrow> errors v3 = errors v2" by (rule n3(1))
    show "p4 \<longleftrightarrow> errors v4 = errors v3" by (rule n4(1))
    show "admit = (p1 \<and> p3 \<and> p4)" using s(5) n2(1) by simp
    show "errs = errors v4" by (rule s(6))
    show "warns = warnings v4" by (rule s(7))
  qed
qed

theorem gate_admit_iff_no_blocking_error_witness:
  "list_all typed_record [flawed_record] \<and>
   validate_data clock_2023 [flawed_record] =
     Inr (False, [''Found 1 records with inconsistent active calculation''],
                 [''Found 1 negative values in recovered'']) \<and>
   [''Found 1 records with inconsistent active calculation''] \<noteq> []"
proof -
  have t: "list_all typed_record [flawed_record]"
    by code_simp
  have r: "validate_data clock_2023 [flawed_record] =
     Inr (False, [''Found 1 records with inconsistent active calculation''],
                 [''Found 1 negative values in recovered''])"
    by code_simp
  have "False \<longleftrightarrow> [''Found 1 records with inconsistent active calculation''] = []"
    using gate_admit_iff_no_blocking_error [of "[flawed_record]" clock_2023] r by blast
  then show ?thesis
    using t r by blast
qed

text \<open>
  Claim C8, as amended. The date-range check compares every date with the
  clock, so the report depends on the table and on the clock reading. Two runs
  on the same table return the same flag, the same errors and the same warnings
  in the same order whenever their clock readings put the same dates in the
  future, in particular when they are equal.
\<close>

theorem gate_same_report_when_clock_agrees:
  assumes "\<forall>u \<in> set d. \<forall>t. date u = Stamp t \<longrightarrow> (now1 < t \<longleftrightarrow> now2 < t)"
  shows "validate_data now1 d = validate_data now2 d"
proof -
  have inv: "date_invalid now1 u = date_invalid now2 u" if u: "u \<in> set d" for u
    using assms u by (cases "date u") (auto simp: date_invalid_def)
  have cdr: "check_date_range now1 v = check_date_range now2 v" if v: "df v = d" for v
  proof -
    have "traverse (date_invalid now1) d = traverse (date_invalid now2) d"
      by (rule traverse_cong_on) (rule inv)
    then show ?thesis
      by (simp add: check_date_range_def v)
  qed
  obtain v1 where v1: "check_null_values (init_validator d) = Inr (errors v1 = [], v1)"
    and d1: "df v1 = df (init_validator d)"
    using check_null_values_result [of "init_validator d"] by blast
  have d1': "df v1 = d"
    using d1 by (simp add: init_validator_def)
  show ?thesis
  proof (cases "check_negative_values v1")
    case (Inl e)
    then show ?thesis
      by (simp add: validate_data_def validate_all_def checks_def v1)
  next
    case (Inr pv)
    obtain p2 v2 where pv: "pv = (p2, v2)" by (cases pv)
    have "df v2 = d"
      using check_negative_values_result [of v1 p2 v2] Inr pv d1' by simp
    then have "check_date_range now1 v2 = check_date_range now2 v2"
      by (rule cdr)
    then show ?thesis
      by (simp add: validate_data_def validate_all_def checks_def v1 Inr pv)
  qed
qed

theorem gate_same_report_when_clock_agrees_witness:
  "(clock_2023 < 1600000000000000000 \<longleftrightarrow> clock_2025 < 1600000000000000000) \<and>
   validate_data clock_2023 [sound_record] = validate_data clock_2025 [sound_record] \<and>
   validate_data clock_2023 [sound_record] = Inr (True, [], [])"
proof -
  have a: "\<forall>u \<in> set [sound_record]. \<forall>t. date u = Stamp t \<longrightarrow>
             (clock_2023 < t \<longleftrightarrow> clock_2025 < t)"
    by (simp add: sound_record_def day_2020_09_13_def clock_2023_def clock_2025_def)
  have r: "validate_data clock_2023 [sound_record] = Inr (True, [], [])"
    by code_simp
  have "validate_data clock_2023 [sound_record] = validate_data clock_2025 [sound_record]"
    by (rule gate_same_report_when_clock_agrees [OF a])
  then show ?thesis
    using r by (simp add: clock_2023_def clock_2025_def)
qed

text \<open>
  The claim as stated fails: the same one-row table, dated July 2024, is
  rejected when the clock reads November 2023 and admitted when it reads June
  2025.
\<close>

theorem gate_depends_on_clock_counterexample:
  "validate_data clock_2023 [postdated_record] =
     Inr (False, [''Found 1 records with invalid dates''], []) \<and>
   validate_data clock_2025 [postdated_record] = Inr (True, [], [])"
  by code_simp

end
